theory Spec2Isabelle
  imports Main
begin

section \<open>Strings\<close>

text \<open>
  A Python \<open>str\<close> is a sequence of Unicode code points; it is modelled as a list of
  natural numbers, one per code point.  ASCII literals of the source are written as
  Isabelle strings and converted with \<open>ustr_of\<close>.
\<close>

type_synonym ustr = "nat list"

definition ustr_of :: "string \<Rightarrow> ustr" where
  "ustr_of s = map of_char s"

text \<open>
  The whitespace test shared by \<open>str.strip()\<close> and the \<open>\s\<close> class of \<open>re\<close> on
  \<open>str\<close> patterns: the code points for which \<open>str.isspace()\<close> holds.
\<close>

definition is_space :: "nat \<Rightarrow> bool" where
  "is_space c \<longleftrightarrow>
     (0x09 \<le> c \<and> c \<le> 0x0D) \<or> (0x1C \<le> c \<and> c \<le> 0x20) \<or> c = 0x85 \<or> c = 0xA0 \<or>
     c = 0x1680 \<or> (0x2000 \<le> c \<and> c \<le> 0x200A) \<or> c = 0x2028 \<or> c = 0x2029 \<or>
     c = 0x202F \<or> c = 0x205F \<or> c = 0x3000"

text \<open>\<open>s.strip()\<close>: drop the leading and the trailing whitespace.\<close>

definition strip :: "ustr \<Rightarrow> ustr" where
  "strip s = rev (dropWhile is_space (rev (dropWhile is_space s)))"

text \<open>\<open>re.sub(r"\s+", " ", s)\<close>: every maximal run of whitespace becomes one U+0020.\<close>

function collapse_ws :: "ustr \<Rightarrow> ustr" where
  "collapse_ws [] = []"
| "collapse_ws (c # cs) =
     (if is_space c then 0x20 # collapse_ws (dropWhile is_space cs)
      else c # collapse_ws cs)"
  by pat_completeness auto
termination
  by (relation "measure length") (auto simp: length_dropWhile_le less_Suc_eq_le)

section \<open>The surface normalizer\<close>

text \<open>
  \<open>_norm_surface\<close>.  \<open>unicodedata.normalize("NFC", _)\<close> belongs to the Python library
  and not to the repository: it is the parameter \<open>nfc\<close>.  On a \<open>str\<close> argument
  \<open>str(value or "")\<close> is the argument itself.
\<close>

definition norm_surface :: "(ustr \<Rightarrow> ustr) \<Rightarrow> ustr \<Rightarrow> ustr" where
  "norm_surface nfc v = collapse_ws (nfc (strip v))"

text \<open>A string has clean edges when it neither starts nor ends with whitespace.\<close>

definition clean_edges :: "ustr \<Rightarrow> bool" where
  "clean_edges s \<longleftrightarrow> s = [] \<or> (\<not> is_space (hd s) \<and> \<not> is_space (last s))"

text \<open>Two neighbouring whitespace characters somewhere in the string.\<close>

fun adjacent_ws :: "ustr \<Rightarrow> bool" where
  "adjacent_ws (a # b # cs) = ((is_space a \<and> is_space b) \<or> adjacent_ws (b # cs))"
| "adjacent_ws _ = False"

text \<open>
  What the proofs use of canonical composition.  No canonical decomposition or
  composition of Unicode produces, consumes or removes a whitespace character at the
  edge of a string, and the empty string is its own normal form (\<open>nfc_keeps_edges\<close>);
  U+0020 is a starter that takes part in no canonical composition, so replacing the
  whitespace runs of a normal form by U+0020 yields a normal form again
  (\<open>nfc_keeps_collapsed\<close>).
\<close>

definition nfc_keeps_edges :: "(ustr \<Rightarrow> ustr) \<Rightarrow> bool" where
  "nfc_keeps_edges nfc \<longleftrightarrow>
     nfc [] = [] \<and>
     (\<forall>s. s \<noteq> [] \<and> clean_edges s \<longrightarrow> nfc s \<noteq> [] \<and> clean_edges (nfc s))"

definition nfc_keeps_collapsed :: "(ustr \<Rightarrow> ustr) \<Rightarrow> bool" where
  "nfc_keeps_collapsed nfc \<longleftrightarrow> (\<forall>s. nfc (collapse_ws (nfc s)) = collapse_ws (nfc s))"

text \<open>
  A fragment of canonical composition, used to run the model on concrete strings: the
  singleton canonical decompositions of EN QUAD, EM QUAD, OHM SIGN, KELVIN SIGN and
  ANGSTROM SIGN.  It agrees with NFC on every string whose other characters are
  unchanged by NFC and do not combine, as the ASCII, kana and ideographs used below.
\<close>

definition nfc_singleton :: "nat \<Rightarrow> nat" where
  "nfc_singleton c =
     (if c = 0x2000 then 0x2002 else if c = 0x2001 then 0x2003
      else if c = 0x2126 then 0x3A9 else if c = 0x212A then 0x4B
      else if c = 0x212B then 0xC5 else c)"

definition nfc_fragment :: "ustr \<Rightarrow> ustr" where
  "nfc_fragment s = map nfc_singleton s"

text \<open>
  \<open>str.lower()\<close> is a library function as well and is the parameter \<open>lower\<close> of the
  row classifier.  To run the model on concrete rows, \<open>lower_ascii\<close> lowers the ASCII
  capitals only; it agrees with \<open>str.lower()\<close> on every string whose other characters
  have no case, as the kana and ideographs used below.
\<close>

definition lower_ascii :: "ustr \<Rightarrow> ustr" where
  "lower_ascii s = map (\<lambda>c. if 0x41 \<le> c \<and> c \<le> 0x5A then c + 0x20 else c) s"

section \<open>The spreadsheet extractor\<close>

text \<open>
  A spreadsheet row is the list of its cells, a spreadsheet the list of its rows, as
  \<open>csv.reader\<close> yields them.  Opening, decoding and parsing the file are the library's
  work: a source is either \<open>Unreadable\<close> (one of them raises) or the rows read.
\<close>

datatype error = ReadError | IndexError

type_synonym row = "ustr list"

datatype csv_source = Unreadable | Rows "row list"

text \<open>\<open>re.search(r"[a-z]", _)\<close>, \<open>re.search(r"[A-Za-z]", _)\<close> and \<open>_has_japanese_chars\<close>.\<close>

definition has_lower_latin :: "ustr \<Rightarrow> bool" where
  "has_lower_latin v = list_ex (\<lambda>c. 0x61 \<le> c \<and> c \<le> 0x7A) v"

definition has_latin :: "ustr \<Rightarrow> bool" where
  "has_latin v = list_ex (\<lambda>c. (0x41 \<le> c \<and> c \<le> 0x5A) \<or> (0x61 \<le> c \<and> c \<le> 0x7A)) v"

definition has_japanese_chars :: "ustr \<Rightarrow> bool" where
  "has_japanese_chars v =
     list_ex (\<lambda>c. (0x3040 \<le> c \<and> c \<le> 0x30FF) \<or> (0x3400 \<le> c \<and> c \<le> 0x9FFF)) v"

text \<open>\<open>k in s\<close> on strings: \<open>k\<close> occurs in \<open>s\<close> as a contiguous substring.\<close>

fun starts_with :: "ustr \<Rightarrow> ustr \<Rightarrow> bool" where
  "starts_with s [] = True"
| "starts_with [] (k # ks) = False"
| "starts_with (c # cs) (k # ks) = (c = k \<and> starts_with cs ks)"

fun contains :: "ustr \<Rightarrow> ustr \<Rightarrow> bool" where
  "contains [] k = (k = [])"
| "contains (c # cs) k = (starts_with (c # cs) k \<or> contains cs k)"

text \<open>\<open>" ".join(cells)\<close>.\<close>

fun join_space :: "ustr list \<Rightarrow> ustr" where
  "join_space [] = []"
| "join_space [x] = x"
| "join_space (x # y # ys) = x @ 0x20 # join_space (y # ys)"

definition header_words :: "ustr list" where
  "header_words = map ustr_of
     [''word'', ''words'', ''surface'', ''expression'', ''lexeme'', ''lemma'', ''lemmas'',
      ''dictform'', ''dict_form'', ''dictionaryform'']"

definition header_substrings :: "ustr list" where
  "header_substrings = map ustr_of
     [''word'', ''surface'', ''expression'', ''lexeme'', ''lemma'', ''morph'', ''dictform'',
      ''dict_form'', ''hascard'', ''reading'', ''translation'']"

text \<open>\<open>_norm_surface(r[0] if r else "")\<close>.\<close>

definition first_cell :: "(ustr \<Rightarrow> ustr) \<Rightarrow> row \<Rightarrow> ustr" where
  "first_cell nfc r = norm_surface nfc (case r of [] \<Rightarrow> [] | c # _ \<Rightarrow> c)"

text \<open>The loop of \<open>_next_nonempty_first\<close> over the rows of the slice \<open>rows[start:]\<close>.\<close>

fun first_nonempty_cell :: "(ustr \<Rightarrow> ustr) \<Rightarrow> row list \<Rightarrow> ustr" where
  "first_nonempty_cell nfc [] = []"
| "first_nonempty_cell nfc (r # rs) =
     (let cell = first_cell nfc r in
      if cell \<noteq> [] then cell else first_nonempty_cell nfc rs)"

definition next_nonempty_first :: "(ustr \<Rightarrow> ustr) \<Rightarrow> row list \<Rightarrow> nat \<Rightarrow> ustr" where
  "next_nonempty_first nfc rows start = first_nonempty_cell nfc (drop start rows)"

text \<open>
  \<open>_looks_like_header_row\<close>.  \<open>rows[idx]\<close> raises \<open>IndexError\<close> out of range.  The
  cells of a row are strings, so \<open>str(x or "")\<close> is \<open>x\<close>.
\<close>

definition looks_like_header_row ::
  "(ustr \<Rightarrow> ustr) \<Rightarrow> (ustr \<Rightarrow> ustr) \<Rightarrow> row list \<Rightarrow> nat \<Rightarrow> error + bool" where
  "looks_like_header_row nfc lower rows idx =
     (if length rows \<le> idx then Inl IndexError
      else Inr
        (let r = rows ! idx;
             first = first_cell nfc r
         in if first = [] then False
         else
           let first_lc = lower first
           in if first_lc \<in> set header_words then True
           else if has_lower_latin first_lc
                   \<and> list_ex (\<lambda>k. contains first_lc k) header_substrings then True
           else if 1 < length r
                   \<and> (let rest = norm_surface nfc (join_space (tl r))
                      in has_latin first \<and> has_latin rest
                         \<and> \<not> has_japanese_chars first \<and> \<not> has_japanese_chars rest)
                then True
           else if has_latin first \<and> \<not> has_japanese_chars first
                   \<and> (let next_first = next_nonempty_first nfc rows (idx + 1)
                      in next_first \<noteq> [] \<and> has_japanese_chars next_first)
                then True
           else False))"

text \<open>
  The header loop of \<open>_csv_surfaces\<close>:
  \<open>while start_idx < len(rows) and _looks_like_header_row(start_idx): start_idx += 1\<close>.
\<close>

function header_scan ::
  "(ustr \<Rightarrow> ustr) \<Rightarrow> (ustr \<Rightarrow> ustr) \<Rightarrow> row list \<Rightarrow> nat \<Rightarrow> error + nat" where
  "header_scan nfc lower rows start_idx =
     (if start_idx < length rows then
        (case looks_like_header_row nfc lower rows start_idx of
           Inl e \<Rightarrow> Inl e
         | Inr True \<Rightarrow> header_scan nfc lower rows (start_idx + 1)
         | Inr False \<Rightarrow> Inr start_idx)
      else Inr start_idx)"
  by pat_completeness auto
termination
  by (relation "measure (\<lambda>(nfc, lower, rows, start_idx). length rows - start_idx)") auto

declare header_scan.simps [simp del]

text \<open>The second loop of \<open>_csv_surfaces\<close>: the non-empty normalised first cells, in order.\<close>

definition collect_surfaces :: "(ustr \<Rightarrow> ustr) \<Rightarrow> row list \<Rightarrow> ustr list" where
  "collect_surfaces nfc rows = filter (\<lambda>s. s \<noteq> []) (map (first_cell nfc) rows)"

definition csv_surfaces ::
  "(ustr \<Rightarrow> ustr) \<Rightarrow> (ustr \<Rightarrow> ustr) \<Rightarrow> csv_source \<Rightarrow> error + (nat \<times> ustr list)" where
  "csv_surfaces nfc lower src =
     (case src of
        Unreadable \<Rightarrow> Inl ReadError
      | Rows rows \<Rightarrow>
          if rows = [] then Inr (0, [])
          else
            (case header_scan nfc lower rows 0 of
               Inl e \<Rightarrow> Inl e
             | Inr start_idx \<Rightarrow>
                 Inr (length rows, collect_surfaces nfc (drop start_idx rows))))"

text \<open>\<open>_csv_summary\<close>: \<open>len(set(surfaces))\<close> is the number of distinct surfaces.\<close>

definition csv_summary ::
  "(ustr \<Rightarrow> ustr) \<Rightarrow> (ustr \<Rightarrow> ustr) \<Rightarrow> csv_source \<Rightarrow> error + (nat \<times> nat \<times> nat)" where
  "csv_summary nfc lower src =
     (case csv_surfaces nfc lower src of
        Inl e \<Rightarrow> Inl e
      | Inr (n_lines, surfaces) \<Rightarrow> Inr (n_lines, length surfaces, card (set surfaces)))"

text \<open>
  \<open>_csv_union_unique_surfaces\<close>: the loop threads the set \<open>union\<close> (here \<open>un\<close>); a source on which
  \<open>_csv_surfaces\<close> raises is skipped by \<open>continue\<close>.
\<close>

fun union_loop ::
  "(ustr \<Rightarrow> ustr) \<Rightarrow> (ustr \<Rightarrow> ustr) \<Rightarrow> csv_source list \<Rightarrow> ustr set \<Rightarrow> ustr set" where
  "union_loop nfc lower [] un = un"
| "union_loop nfc lower (csv_path # paths) un =
     (case csv_surfaces nfc lower csv_path of
        Inl e \<Rightarrow> union_loop nfc lower paths un
      | Inr (n, surfaces) \<Rightarrow> union_loop nfc lower paths (un \<union> set surfaces))"

definition csv_union_unique_surfaces ::
  "(ustr \<Rightarrow> ustr) \<Rightarrow> (ustr \<Rightarrow> ustr) \<Rightarrow> csv_source list \<Rightarrow> nat" where
  "csv_union_unique_surfaces nfc lower paths = card (union_loop nfc lower paths {})"

section \<open>Notions used to state the spreadsheet claims\<close>

text \<open>
  The set of surfaces a source contributes (nothing when it cannot be read), and the
  distinct count \<open>_csv_summary\<close> reports for it.
\<close>

definition surface_set :: "(ustr \<Rightarrow> ustr) \<Rightarrow> (ustr \<Rightarrow> ustr) \<Rightarrow> csv_source \<Rightarrow> ustr set" where
  "surface_set nfc lower src =
     (case csv_surfaces nfc lower src of Inl e \<Rightarrow> {} | Inr (n, surfaces) \<Rightarrow> set surfaces)"

definition distinct_surface_count ::
  "(ustr \<Rightarrow> ustr) \<Rightarrow> (ustr \<Rightarrow> ustr) \<Rightarrow> csv_source \<Rightarrow> nat" where
  "distinct_surface_count nfc lower src =
     (case csv_summary nfc lower src of
        Inl e \<Rightarrow> 0
      | Inr (n_lines, n_rows, n_unique) \<Rightarrow> n_unique)"

text \<open>
  The strings of the scenarios, as code points: \<open>word\<close>, \<open>Vocab\<close>, U+5B66 U+6821,
  U+98DF U+3079 U+308B, U+8D70 U+308B, U+8D70 U+3063 U+305F, and U+5358 U+8A9E followed
  by \<open>word\<close>.
\<close>

definition s_word :: ustr where "s_word = ustr_of ''word''"
definition s_vocab :: ustr where "s_vocab = ustr_of ''Vocab''"
definition s_gakkou :: ustr where "s_gakkou = [0x5B66, 0x6821]"
definition s_taberu :: ustr where "s_taberu = [0x98DF, 0x3079, 0x308B]"
definition s_hashiru :: ustr where "s_hashiru = [0x8D70, 0x308B]"
definition s_hashitta :: ustr where "s_hashitta = [0x8D70, 0x3063, 0x305F]"
definition s_tango_word :: ustr where "s_tango_word = [0x5358, 0x8A9E] @ ustr_of ''word''"

definition a_csv :: csv_source where "a_csv = Rows [[s_word], [s_gakkou], [s_taberu]]"
definition b_csv :: csv_source where "b_csv = Rows [[s_taberu], [s_hashiru]]"

section \<open>The configuration loaders\<close>

text \<open>
  A Python \<open>float\<close> is a double: a finite one is an integer mantissa times a power of
  two.
\<close>

datatype py_float = Finite int int | Inf | Neg_Inf | NaN

text \<open>
  The values \<open>json.loads\<close> returns; a dict is given by its items (no key twice).
\<close>

datatype json =
    JNull
  | JBool bool
  | JInt int
  | JFloat py_float
  | JStr ustr
  | JArr "json list"
  | JObj "(ustr \<times> json) list"

text \<open>
  What reading and parsing \<open>config.json\<close> gives: \<open>read_text\<close> raises, \<open>json.loads\<close>
  raises, or a value is parsed.
\<close>

datatype config_file = Read_Fails | Json_Fails | Parsed json

text \<open>\<open>d.get(key)\<close>: the value of the key, \<open>None\<close> for a missing key.\<close>

definition dict_get :: "(ustr \<times> json) list \<Rightarrow> ustr \<Rightarrow> json" where
  "dict_get d key = (case map_of d key of None \<Rightarrow> JNull | Some v \<Rightarrow> v)"

text \<open>
  \<open>str(v)\<close>: \<open>None\<close>, \<open>True\<close> and \<open>False\<close> print as their names and a string is itself;
  how numbers, lists and dicts print is the library's business, the parameter \<open>fmt\<close>.
\<close>

fun py_str :: "(json \<Rightarrow> ustr) \<Rightarrow> json \<Rightarrow> ustr" where
  "py_str fmt JNull = ustr_of ''None''"
| "py_str fmt (JBool b) = (if b then ustr_of ''True'' else ustr_of ''False'')"
| "py_str fmt (JStr s) = s"
| "py_str fmt v = fmt v"

text \<open>
  \<open>int(v)\<close>: a bool is 0 or 1, a finite float is truncated towards zero, an infinity
  raises \<open>OverflowError\<close> and a NaN \<open>ValueError\<close>; \<open>None\<close>, lists and dicts raise
  \<open>TypeError\<close>.  Parsing a string is the library's business, the parameter
  \<open>int_of_str\<close> (\<open>None\<close> when it raises \<open>ValueError\<close>).
\<close>

datatype py_error = TypeError | ValueError | OverflowError

definition trunc_float :: "int \<Rightarrow> int \<Rightarrow> int" where
  "trunc_float m e =
     (if 0 \<le> e then m * 2 ^ nat e
      else if 0 \<le> m then m div 2 ^ nat (- e)
      else - ((- m) div 2 ^ nat (- e)))"

fun py_int :: "(ustr \<Rightarrow> int option) \<Rightarrow> json \<Rightarrow> py_error + int" where
  "py_int int_of_str JNull = Inl TypeError"
| "py_int int_of_str (JBool b) = Inr (if b then 1 else 0)"
| "py_int int_of_str (JInt n) = Inr n"
| "py_int int_of_str (JFloat (Finite m e)) = Inr (trunc_float m e)"
| "py_int int_of_str (JFloat Inf) = Inl OverflowError"
| "py_int int_of_str (JFloat Neg_Inf) = Inl OverflowError"
| "py_int int_of_str (JFloat NaN) = Inl ValueError"
| "py_int int_of_str (JStr s) =
     (case int_of_str s of None \<Rightarrow> Inl ValueError | Some n \<Rightarrow> Inr n)"
| "py_int int_of_str (JArr xs) = Inl TypeError"
| "py_int int_of_str (JObj d) = Inl TypeError"

text \<open>\<open>_load_anki_profile\<close>.\<close>

definition load_anki_profile :: "(json \<Rightarrow> ustr) \<Rightarrow> config_file \<Rightarrow> ustr" where
  "load_anki_profile fmt cfg =
     (case cfg of
        Read_Fails \<Rightarrow> ustr_of ''User 1''
      | Json_Fails \<Rightarrow> ustr_of ''User 1''
      | Parsed parsed \<Rightarrow>
          (case parsed of
             JObj d \<Rightarrow>
               (let prof = dict_get d (ustr_of ''anki_profile'');
                    s = strip (py_str fmt prof)
                in if s \<noteq> [] then s else ustr_of ''User 1'')
           | _ \<Rightarrow> ustr_of ''User 1''))"

text \<open>\<open>_load_ankimorphs_known_interval\<close>.\<close>

definition load_ankimorphs_known_interval :: "(ustr \<Rightarrow> int option) \<Rightarrow> config_file \<Rightarrow> int" where
  "load_ankimorphs_known_interval int_of_str cfg =
     (case cfg of
        Read_Fails \<Rightarrow> 21
      | Json_Fails \<Rightarrow> 21
      | Parsed parsed \<Rightarrow>
          (case parsed of
             JObj d \<Rightarrow>
               (case dict_get d (ustr_of ''ankimorphs'') of
                  JObj ankimorphs \<Rightarrow>
                    (let v = dict_get ankimorphs (ustr_of ''known_interval_days'');
                         n = (case py_int int_of_str v of Inl e \<Rightarrow> 21 | Inr n \<Rightarrow> n)
                     in if 0 < n then n else 21)
                | _ \<Rightarrow> 21)
           | _ \<Rightarrow> 21))"

section \<open>The external store\<close>

text \<open>
  A value stored in an SQLite table has one of five storage classes: \<open>NULL\<close>, an
  integer, a real (a double; a NaN is never stored), a text or a blob.
\<close>

datatype sql_value = SNull | SInt int | SReal py_float | SText ustr | SBlob "nat list"

text \<open>
  A row of the table \<open>Morphs\<close>: the text columns \<open>lemma\<close> and \<open>inflection\<close> (a text or
  \<open>NULL\<close>) and the column \<open>highest_inflection_learning_interval\<close>.  \<open>main\<close> looks for
  that column by its name only, so it may have any declared type and hold values of any
  storage class.
\<close>

record morph =
  morph_lemma :: "ustr option"
  inflection :: "ustr option"
  highest_inflection_learning_interval :: sql_value

text \<open>The affinity that the declared type of a column gives it.\<close>

datatype affinity =
  Text_Affinity | Numeric_Affinity | Integer_Affinity | Real_Affinity | Blob_Affinity

text \<open>The values of a column that are not \<open>NULL\<close>: what \<open>COUNT(DISTINCT column)\<close> counts.\<close>

definition non_null :: "'a option list \<Rightarrow> 'a list" where
  "non_null vs = map the (filter (\<lambda>v. v \<noteq> None) vs)"

text \<open>\<open>_count_distinct\<close>: \<open>SELECT COUNT(DISTINCT column) FROM table\<close>.\<close>

definition count_distinct :: "'a option list \<Rightarrow> nat" where
  "count_distinct column = card (set (non_null column))"

text \<open>An integer as SQLite renders it when it converts it to a text: in decimal.\<close>

function nat_digits :: "nat \<Rightarrow> ustr" where
  "nat_digits n = (if n < 10 then [0x30 + n] else nat_digits (n div 10) @ [0x30 + n mod 10])"
  by pat_completeness auto
termination
  by (relation "measure id") auto

declare nat_digits.simps [simp del]

definition int_text :: "int \<Rightarrow> ustr" where
  "int_text t = (if t < 0 then 0x2D # nat_digits (nat (- t)) else nat_digits (nat t))"

text \<open>
  The order of two texts under the default collation \<open>BINARY\<close>: the bytes are compared
  as \<open>memcmp\<close> does and a proper prefix is smaller.  On code points this is the
  lexicographic order, as UTF-8 keeps the order of the code points.
\<close>

fun text_le :: "ustr \<Rightarrow> ustr \<Rightarrow> bool" where
  "text_le [] b = True"
| "text_le (x # xs) [] = False"
| "text_le (x # xs) (y # ys) = (x < y \<or> (x = y \<and> text_le xs ys))"

text \<open>A stored real against an integer, compared as numbers.\<close>

fun float_ge_int :: "py_float \<Rightarrow> int \<Rightarrow> bool" where
  "float_ge_int (Finite m e) t =
     (if 0 \<le> e then t \<le> m * 2 ^ nat e else t * 2 ^ nat (- e) \<le> m)"
| "float_ge_int Inf t = True"
| "float_ge_int Neg_Inf t = False"
| "float_ge_int NaN t = False"

text \<open>
  \<open>WHERE highest_inflection_learning_interval >= ?\<close> with the parameter bound to the
  integer \<open>interval_days\<close>, for a column of affinity \<open>aff\<close>.  A comparison with
  \<open>NULL\<close> is not true.  A bound parameter has no affinity: against a column of text
  affinity it is converted to a text, and otherwise it stays an integer.  Then the two
  values are compared: numbers as numbers, texts by the collation; a number is
  smaller than a text, and a text smaller than a blob.
\<close>

definition interval_at_least :: "affinity \<Rightarrow> int \<Rightarrow> morph \<Rightarrow> bool" where
  "interval_at_least aff interval_days m =
     (case highest_inflection_learning_interval m of
        SNull \<Rightarrow> False
      | SInt n \<Rightarrow> aff \<noteq> Text_Affinity \<and> interval_days \<le> n
      | SReal r \<Rightarrow> aff \<noteq> Text_Affinity \<and> float_ge_int r interval_days
      | SText s \<Rightarrow>
          (if aff = Text_Affinity then text_le (int_text interval_days) s else True)
      | SBlob b \<Rightarrow> True)"

text \<open>The three filtered queries of \<open>main\<close>.\<close>

definition filtered_row_count :: "affinity \<Rightarrow> morph list \<Rightarrow> int \<Rightarrow> nat" where
  "filtered_row_count aff morphs interval_days =
     length (filter (interval_at_least aff interval_days) morphs)"

definition filtered_lemma_count :: "affinity \<Rightarrow> morph list \<Rightarrow> int \<Rightarrow> nat" where
  "filtered_lemma_count aff morphs interval_days =
     count_distinct (map morph_lemma (filter (interval_at_least aff interval_days) morphs))"

definition filtered_surface_count :: "affinity \<Rightarrow> morph list \<Rightarrow> int \<Rightarrow> nat" where
  "filtered_surface_count aff morphs interval_days =
     count_distinct (map inflection (filter (interval_at_least aff interval_days) morphs))"

text \<open>
  The external store as \<open>main\<close> finds it: no database file, a database without the
  table \<open>Morphs\<close>, or the table, without the interval column (\<open>None\<close>) or with it and
  its affinity.  The three counts stay \<open>None\<close> when the file or the table is missing.
  Binding \<open>interval_days\<close> to a filtered query raises \<open>OverflowError\<close> when it is not a
  signed 64-bit integer; \<open>main\<close> closes the connection and the error propagates.
\<close>

datatype anki_store = Db_Missing | Morphs_Missing | Morphs "affinity option" "morph list"

record anki_counts =
  anki_row_count :: "nat option"
  anki_lemma_count :: "nat option"
  anki_surface_count :: "nat option"

definition anki_stats :: "anki_store \<Rightarrow> int \<Rightarrow> py_error + anki_counts" where
  "anki_stats store interval_days =
     (case store of
        Db_Missing \<Rightarrow>
          Inr \<lparr>anki_row_count = None, anki_lemma_count = None, anki_surface_count = None\<rparr>
      | Morphs_Missing \<Rightarrow>
          Inr \<lparr>anki_row_count = None, anki_lemma_count = None, anki_surface_count = None\<rparr>
      | Morphs interval_column morphs \<Rightarrow>
          (case interval_column of
             None \<Rightarrow>
               Inr \<lparr>anki_row_count = Some (length morphs),
                    anki_lemma_count = Some (count_distinct (map morph_lemma morphs)),
                    anki_surface_count = Some (count_distinct (map inflection morphs))\<rparr>
           | Some aff \<Rightarrow>
               if interval_days < - (2 ^ 63) \<or> 2 ^ 63 \<le> interval_days
               then Inl OverflowError
               else
                 Inr \<lparr>anki_row_count = Some (filtered_row_count aff morphs interval_days),
                      anki_lemma_count = Some (filtered_lemma_count aff morphs interval_days),
                      anki_surface_count =
                        Some (filtered_surface_count aff morphs interval_days)\<rparr>))"

text \<open>
  Scenario B: three rows with the lemma \<open>X\<close> and the intervals 30, 10 and 25, stored as
  integers; and the same rows with the intervals stored as texts, as a column declared
  with a text type holds them.
\<close>

definition scenario_B_morphs :: "morph list" where
  "scenario_B_morphs =
     [\<lparr>morph_lemma = Some [0x58], inflection = Some [0x58, 0x31],
        highest_inflection_learning_interval = SInt 30\<rparr>,
      \<lparr>morph_lemma = Some [0x58], inflection = Some [0x58, 0x32],
        highest_inflection_learning_interval = SInt 10\<rparr>,
      \<lparr>morph_lemma = Some [0x58], inflection = Some [0x58, 0x33],
        highest_inflection_learning_interval = SInt 25\<rparr>]"

definition text_morphs :: "morph list" where
  "text_morphs =
     [\<lparr>morph_lemma = Some [0x58], inflection = Some [0x58, 0x31],
        highest_inflection_learning_interval = SText [0x33, 0x30]\<rparr>,
      \<lparr>morph_lemma = Some [0x58], inflection = Some [0x58, 0x32],
        highest_inflection_learning_interval = SText [0x31, 0x30]\<rparr>,
      \<lparr>morph_lemma = Some [0x58], inflection = Some [0x58, 0x33],
        highest_inflection_learning_interval = SText [0x32, 0x35]\<rparr>]"

section \<open>The internal store\<close>

text \<open>The tables \<open>lexemes(id, normalized_surface)\<close>, \<open>lemmas(id, lemma)\<close> and
  \<open>lexeme_lemmas(lexeme_id, lemma_id)\<close>.\<close>

record lexeme =
  lexeme_id :: int
  normalized_surface :: "ustr option"

record lemma_row =
  lemma_id :: int
  lemma_text :: "ustr option"

record lexeme_lemma =
  ll_lexeme_id :: int
  ll_lemma_id :: int

record tokei_db =
  lexemes_table :: "lexeme list"
  lemmas_table :: "lemma_row list"
  lexeme_lemmas_table :: "lexeme_lemma list"

text \<open>
  \<open>FROM lexemes l JOIN lexeme_lemmas ll ON ll.lexeme_id = l.id
  JOIN lemmas le ON le.id = ll.lemma_id\<close>: the rows of the join, as pairs of the
  surface and the lemma text.
\<close>

definition joined :: "tokei_db \<Rightarrow> (ustr option \<times> ustr option) list" where
  "joined db =
     [(normalized_surface l, lemma_text le).
        l \<leftarrow> lexemes_table db, ll \<leftarrow> lexeme_lemmas_table db, ll_lexeme_id ll = lexeme_id l,
        le \<leftarrow> lemmas_table db, lemma_id le = ll_lemma_id ll]"

text \<open>\<open>WHERE l.normalized_surface != le.lemma\<close>: not true when either side is \<open>NULL\<close>.\<close>

definition sql_differs :: "'a option \<Rightarrow> 'a option \<Rightarrow> bool" where
  "sql_differs a b = (case (a, b) of (Some x, Some y) \<Rightarrow> x \<noteq> y | _ \<Rightarrow> False)"

definition changed_rows :: "tokei_db \<Rightarrow> (ustr option \<times> ustr option) list" where
  "changed_rows db = filter (\<lambda>(surface, lem). sql_differs surface lem) (joined db)"

definition tokei_changed_surface_count :: "tokei_db \<Rightarrow> nat" where
  "tokei_changed_surface_count db = length (changed_rows db)"

text \<open>
  \<open>GROUP BY le.lemma HAVING COUNT(DISTINCT l.normalized_surface) > 1\<close>, counted: one
  group for each lemma text of the join, kept when more than one distinct surface of
  the join has that lemma text.
\<close>

definition tokei_collision_lemma_count :: "tokei_db \<Rightarrow> nat" where
  "tokei_collision_lemma_count db =
     length (filter
       (\<lambda>g. 1 < count_distinct (map fst (filter (\<lambda>(surface, lem). lem = g) (joined db))))
       (remdups (map snd (joined db))))"

text \<open>
  Scenario C: two lexemes with the surfaces U+8D70 U+308B and U+8D70 U+3063 U+305F, one
  lemma U+8D70 U+308B, and both lexemes joined to it.
\<close>

definition scenario_C_db :: "int \<Rightarrow> int \<Rightarrow> int \<Rightarrow> tokei_db" where
  "scenario_C_db i1 i2 j =
     \<lparr>lexemes_table = [\<lparr>lexeme_id = i1, normalized_surface = Some s_hashiru\<rparr>,
                       \<lparr>lexeme_id = i2, normalized_surface = Some s_hashitta\<rparr>],
      lemmas_table = [\<lparr>lemma_id = j, lemma_text = Some s_hashiru\<rparr>],
      lexeme_lemmas_table = [\<lparr>ll_lexeme_id = i1, ll_lemma_id = j\<rparr>,
                             \<lparr>ll_lexeme_id = i2, ll_lemma_id = j\<rparr>]\<rparr>"

section \<open>Properties of the normalizer\<close>

lemma dropWhile_space_edge:
  "dropWhile is_space s = [] \<or> \<not> is_space (hd (dropWhile is_space s))"
  by (metis hd_dropWhile)

lemma clean_edges_strip: "clean_edges (strip s)"
proof (cases "strip s = []")
  case True
  then show ?thesis by (simp add: clean_edges_def)
next
  case False
  let ?a = "dropWhile is_space s"
  let ?b = "dropWhile is_space (rev ?a)"
  from False have b: "?b \<noteq> []" by (simp add: strip_def)
  then have hb: "\<not> is_space (hd ?b)" by (metis hd_dropWhile)
  have last_strip: "last (strip s) = hd ?b"
    using b by (simp add: strip_def last_rev)
  have a: "?a \<noteq> []"
  proof
    assume "?a = []"
    then have "?b = []" by (simp only: rev.simps dropWhile.simps)
    with b show False by simp
  qed
  then have ha: "\<not> is_space (hd ?a)" by (metis hd_dropWhile)
  have "?a = rev ?b @ rev (takeWhile is_space (rev ?a))"
    by (metis rev_append rev_rev_ident takeWhile_dropWhile_id)
  then have "hd ?a = hd (rev ?b)"
    using b by (metis hd_append2 rev_is_Nil_conv)
  with ha have "\<not> is_space (hd (strip s))" by (simp add: strip_def)
  with hb last_strip show ?thesis by (simp add: clean_edges_def)
qed

lemma strip_clean: "clean_edges s \<Longrightarrow> strip s = s"
proof (cases s)
  case Nil
  then show ?thesis by (simp add: strip_def)
next
  case (Cons a as)
  assume "clean_edges s"
  with Cons have h: "\<not> is_space (hd s)" and l: "\<not> is_space (last s)"
    by (auto simp: clean_edges_def)
  from h Cons have 1: "dropWhile is_space s = s" by simp
  from Cons have r: "rev s = last s # rev (butlast s)"
    by (metis append_butlast_last_id list.distinct(1) rev.simps(2) rev_append rev_rev_ident
        append_Cons append_Nil rev_singleton_conv)
  have "dropWhile is_space (last s # rev (butlast s)) = last s # rev (butlast s)"
    using l by simp
  with r have 2: "dropWhile is_space (rev s) = rev s" by (simp only:)
  from 1 2 show ?thesis by (simp add: strip_def)
qed

lemma dropWhile_all_space:
  "(\<forall>c\<in>set (dropWhile is_space s). is_space c) \<longleftrightarrow> (\<forall>c\<in>set s. is_space c)"
  by (induction s) auto

lemma strip_Nil_iff: "strip s = [] \<longleftrightarrow> (\<forall>c\<in>set s. is_space c)"
  by (simp add: strip_def dropWhile_eq_Nil_conv dropWhile_all_space)

lemma collapse_ws_Nil_iff: "collapse_ws s = [] \<longleftrightarrow> s = []"
  by (cases s) auto

lemma hd_collapse_ws: "s \<noteq> [] \<Longrightarrow> \<not> is_space (hd s) \<Longrightarrow> hd (collapse_ws s) = hd s"
  by (cases s) auto

lemma last_collapse_ws:
  "s \<noteq> [] \<Longrightarrow> \<not> is_space (last s) \<Longrightarrow> last (collapse_ws s) = last s"
proof (induction s rule: collapse_ws.induct)
  case 1
  then show ?case by simp
next
  case (2 c cs)
  show ?case
  proof (cases "is_space c")
    case True
    let ?d = "dropWhile is_space cs"
    from True "2.prems" have cs: "cs \<noteq> []" by auto
    with "2.prems" have lcs: "\<not> is_space (last cs)" by simp
    have d: "?d \<noteq> []"
    proof
      assume "?d = []"
      then have "\<forall>x\<in>set cs. is_space x" by (simp add: dropWhile_eq_Nil_conv)
      with cs lcs show False by (meson last_in_set)
    qed
    have ld: "last ?d = last cs"
      using d by (metis last_appendR takeWhile_dropWhile_id)
    then have "\<not> is_space (last ?d)" using lcs by simp
    from "2.IH"(1)[OF True d this] ld
    have "last (collapse_ws ?d) = last cs" by simp
    moreover have "collapse_ws ?d \<noteq> []" using d by (simp only: collapse_ws_Nil_iff not_False_eq_True)
    ultimately have "last (0x20 # collapse_ws ?d) = last (c # cs)"
      using cs by simp
    with True show ?thesis by (simp only: collapse_ws.simps if_True)
  next
    case False
    show ?thesis
    proof (cases "cs = []")
      case True
      with False show ?thesis by simp
    next
      case ne: False
      with "2.prems" have "\<not> is_space (last cs)" by simp
      with "2.IH"(2)[OF False ne] False ne show ?thesis
        by (simp add: collapse_ws_Nil_iff)
    qed
  qed
qed

lemma clean_edges_collapse_ws: "clean_edges s \<Longrightarrow> clean_edges (collapse_ws s)"
  by (auto simp: clean_edges_def collapse_ws_Nil_iff hd_collapse_ws last_collapse_ws)

lemma dropWhile_collapse_ws:
  "s = [] \<or> \<not> is_space (hd s) \<Longrightarrow> dropWhile is_space (collapse_ws s) = collapse_ws s"
  by (cases s) auto

lemma is_space_0x20: "is_space 0x20"
  by (simp add: is_space_def)

lemma collapse_ws_idem: "collapse_ws (collapse_ws s) = collapse_ws s"
proof (induction s rule: collapse_ws.induct)
  case 1
  then show ?case by simp
next
  case (2 c cs)
  show ?case
  proof (cases "is_space c")
    case True
    have "dropWhile is_space (collapse_ws (dropWhile is_space cs))
            = collapse_ws (dropWhile is_space cs)"
      by (rule dropWhile_collapse_ws) (rule dropWhile_space_edge)
    with "2.IH"(1)[OF True] True show ?thesis
      by (simp add: is_space_0x20)
  next
    case False
    with "2.IH"(2) show ?thesis by simp
  qed
qed

lemma no_adjacent_ws_collapse: "\<not> adjacent_ws (collapse_ws s)"
proof (induction s rule: collapse_ws.induct)
  case 1
  then show ?case by simp
next
  case (2 c cs)
  show ?case
  proof (cases "is_space c")
    case True
    let ?d = "dropWhile is_space cs"
    show ?thesis
    proof (cases "collapse_ws ?d")
      case Nil
      with True show ?thesis by simp
    next
      case (Cons b bs)
      have d: "?d \<noteq> []"
      proof
        assume "?d = []"
        then have "collapse_ws ?d = []" by (simp only: collapse_ws.simps)
        with Cons show False by simp
      qed
      then have "\<not> is_space (hd ?d)" by (metis hd_dropWhile)
      with d have "\<not> is_space (hd (collapse_ws ?d))" by (simp add: hd_collapse_ws)
      with Cons have "\<not> is_space b" by simp
      with "2.IH"(1)[OF True] True Cons show ?thesis by simp
    qed
  next
    case False
    with "2.IH"(2) show ?thesis by (cases "collapse_ws cs") auto
  qed
qed

lemma clean_edges_norm_surface:
  assumes "nfc_keeps_edges nfc"
  shows "clean_edges (norm_surface nfc s)"
proof -
  have "clean_edges (nfc (strip s))"
    using assms clean_edges_strip[of s]
    by (cases "strip s = []") (auto simp: nfc_keeps_edges_def clean_edges_def)
  then show ?thesis
    by (simp add: norm_surface_def clean_edges_collapse_ws)
qed

lemma norm_surface_Nil_iff:
  assumes "nfc_keeps_edges nfc"
  shows "norm_surface nfc s = [] \<longleftrightarrow> (\<forall>c\<in>set s. is_space c)"
proof -
  have "nfc (strip s) = [] \<longleftrightarrow> strip s = []"
    using assms clean_edges_strip[of s] by (auto simp: nfc_keeps_edges_def)
  then show ?thesis
    by (simp add: norm_surface_def collapse_ws_Nil_iff strip_Nil_iff)
qed

subsection \<open>The fragment of NFC satisfies the assumptions\<close>

lemma is_space_nfc_singleton: "is_space (nfc_singleton c) = is_space c"
  by (simp add: nfc_singleton_def is_space_def)

lemma nfc_singleton_idem: "nfc_singleton (nfc_singleton c) = nfc_singleton c"
  by (simp add: nfc_singleton_def)

lemma dropWhile_map_nfc_singleton:
  "dropWhile is_space (map nfc_singleton s) = map nfc_singleton (dropWhile is_space s)"
  by (induction s) (auto simp: is_space_nfc_singleton)

lemma collapse_ws_nfc_fragment:
  "collapse_ws (nfc_fragment s) = nfc_fragment (collapse_ws s)"
proof (induction s rule: collapse_ws.induct)
  case 1
  then show ?case by (simp add: nfc_fragment_def)
next
  case (2 c cs)
  show ?case
  proof (cases "is_space c")
    case True
    have "nfc_singleton 0x20 = 0x20" by (simp add: nfc_singleton_def)
    with "2.IH"(1)[OF True] True show ?thesis
      by (simp add: nfc_fragment_def is_space_nfc_singleton dropWhile_map_nfc_singleton)
  next
    case False
    with "2.IH"(2) show ?thesis
      by (simp add: nfc_fragment_def is_space_nfc_singleton)
  qed
qed

lemma nfc_fragment_keeps_edges: "nfc_keeps_edges nfc_fragment"
  by (auto simp: nfc_keeps_edges_def nfc_fragment_def clean_edges_def hd_map last_map
      is_space_nfc_singleton)

lemma nfc_fragment_keeps_collapsed: "nfc_keeps_collapsed nfc_fragment"
proof -
  have "nfc_fragment (nfc_fragment s) = nfc_fragment s" for s
    by (simp add: nfc_fragment_def nfc_singleton_idem)
  then show ?thesis
    by (simp add: nfc_keeps_collapsed_def collapse_ws_nfc_fragment)
qed

section \<open>Claims about the normalizer\<close>

text \<open>
  C3.  The normalizer is idempotent: normalising a normalised string again changes
  nothing.  Stated for every canonical composition \<open>nfc\<close> that keeps the edges of a
  string free of whitespace and keeps a normal form normal when its whitespace runs
  are replaced by single spaces.
\<close>

theorem norm_surface_idempotent:
  assumes "nfc_keeps_edges nfc" and "nfc_keeps_collapsed nfc"
  shows "norm_surface nfc (norm_surface nfc s) = norm_surface nfc s"
proof -
  let ?t = "nfc (strip s)"
  have "strip (collapse_ws ?t) = collapse_ws ?t"
    using clean_edges_norm_surface[OF assms(1), of s]
    by (simp add: norm_surface_def strip_clean)
  moreover have "nfc (collapse_ws ?t) = collapse_ws ?t"
    using assms(2) by (simp add: nfc_keeps_collapsed_def)
  ultimately show ?thesis
    by (simp add: norm_surface_def collapse_ws_idem)
qed

theorem norm_surface_idempotent_witness:
  "nfc_keeps_edges nfc_fragment \<and> nfc_keeps_collapsed nfc_fragment \<and>
   norm_surface nfc_fragment [0x3000, 0x61, 0x2001, 0x09, 0x212A, 0x20] = [0x61, 0x20, 0x4B] \<and>
   norm_surface nfc_fragment
     (norm_surface nfc_fragment [0x3000, 0x61, 0x2001, 0x09, 0x212A, 0x20])
     = norm_surface nfc_fragment [0x3000, 0x61, 0x2001, 0x09, 0x212A, 0x20]"
  using norm_surface_idempotent[OF nfc_fragment_keeps_edges nfc_fragment_keeps_collapsed,
      of "[0x3000, 0x61, 0x2001, 0x09, 0x212A, 0x20]"]
    nfc_fragment_keeps_edges nfc_fragment_keeps_collapsed
  by (simp add: norm_surface_def strip_def nfc_fragment_def nfc_singleton_def is_space_def)

text \<open>
  C9.  The normalizer returns the empty string exactly when its input is empty or all
  whitespace; on any other input the result is non-empty, neither starts nor ends with
  whitespace, and has no two adjacent whitespace characters.
\<close>

theorem norm_surface_shape:
  assumes "nfc_keeps_edges nfc"
  shows "(norm_surface nfc s = [] \<longleftrightarrow> (\<forall>c\<in>set s. is_space c)) \<and>
         ((\<exists>c\<in>set s. \<not> is_space c) \<longrightarrow>
            norm_surface nfc s \<noteq> [] \<and>
            \<not> is_space (hd (norm_surface nfc s)) \<and>
            \<not> is_space (last (norm_surface nfc s)) \<and>
            \<not> adjacent_ws (norm_surface nfc s))"
proof -
  have nil: "norm_surface nfc s = [] \<longleftrightarrow> (\<forall>c\<in>set s. is_space c)"
    by (rule norm_surface_Nil_iff[OF assms])
  have adj: "\<not> adjacent_ws (norm_surface nfc s)"
    by (simp add: norm_surface_def no_adjacent_ws_collapse)
  have "clean_edges (norm_surface nfc s)"
    by (rule clean_edges_norm_surface[OF assms])
  with nil adj show ?thesis
    by (auto simp: clean_edges_def)
qed

theorem norm_surface_shape_witness:
  "nfc_keeps_edges nfc_fragment \<and>
   (\<exists>c\<in>set [0x3000, 0x61, 0x2001, 0x09, 0x212A, 0x20]. \<not> is_space c) \<and>
   norm_surface nfc_fragment [0x3000, 0x61, 0x2001, 0x09, 0x212A, 0x20] \<noteq> [] \<and>
   \<not> is_space (hd (norm_surface nfc_fragment [0x3000, 0x61, 0x2001, 0x09, 0x212A, 0x20])) \<and>
   \<not> is_space (last (norm_surface nfc_fragment [0x3000, 0x61, 0x2001, 0x09, 0x212A, 0x20])) \<and>
   \<not> adjacent_ws (norm_surface nfc_fragment [0x3000, 0x61, 0x2001, 0x09, 0x212A, 0x20]) \<and>
   (norm_surface nfc_fragment [0x20, 0x3000, 0x0A] = [] \<longleftrightarrow>
      (\<forall>c\<in>set [0x20, 0x3000, 0x0A]. is_space c))"
  using norm_surface_shape[OF nfc_fragment_keeps_edges,
      of "[0x3000, 0x61, 0x2001, 0x09, 0x212A, 0x20]"]
    norm_surface_shape[OF nfc_fragment_keeps_edges, of "[0x20, 0x3000, 0x0A]"]
    nfc_fragment_keeps_edges
  by (simp add: is_space_def)

section \<open>Properties of the spreadsheet extractor\<close>

subsection \<open>The header loop and the extractor return\<close>

lemma looks_like_header_row_in_range:
  "idx < length rows \<Longrightarrow> \<exists>b. looks_like_header_row nfc lower rows idx = Inr b"
  by (simp add: looks_like_header_row_def)

lemma header_scan_returns:
  "\<exists>i. header_scan nfc lower rows k = Inr i \<and> k \<le> i"
proof (induction nfc lower rows k rule: header_scan.induct)
  case (1 nfc lower rows k)
  show ?case
  proof (cases "k < length rows")
    case False
    then show ?thesis by (subst header_scan.simps) simp
  next
    case True
    then obtain b where b: "looks_like_header_row nfc lower rows k = Inr b"
      using looks_like_header_row_in_range by blast
    show ?thesis
    proof (cases b)
      case False
      with True b show ?thesis by (subst header_scan.simps) simp
    next
      case t: True
      from "1.IH"[OF True, of True] b t
      obtain i where "header_scan nfc lower rows (k + 1) = Inr i" "k + 1 \<le> i" by auto
      with True b t show ?thesis by (subst header_scan.simps) simp
    qed
  qed
qed

lemma header_scan_stop:
  assumes "idx < length rows" and "looks_like_header_row nfc lower rows idx = Inr False"
  shows "header_scan nfc lower rows idx = Inr idx"
  using assms by (subst header_scan.simps) simp

lemma header_scan_step:
  assumes "idx < length rows" and "looks_like_header_row nfc lower rows idx = Inr True"
  shows "header_scan nfc lower rows idx = header_scan nfc lower rows (idx + 1)"
  using assms by (subst header_scan.simps) simp

lemma csv_surfaces_Rows:
  "\<exists>i. csv_surfaces nfc lower (Rows rows) = Inr (length rows, collect_surfaces nfc (drop i rows))"
proof (cases "rows = []")
  case True
  then show ?thesis by (simp add: csv_surfaces_def collect_surfaces_def)
next
  case False
  obtain i where "header_scan nfc lower rows 0 = Inr i"
    using header_scan_returns by blast
  with False show ?thesis by (auto simp: csv_surfaces_def)
qed

lemma length_collect_surfaces: "length (collect_surfaces nfc rs) \<le> length rs"
  by (simp add: collect_surfaces_def)

lemma collect_surfaces_all:
  "\<forall>r\<in>set rs. first_cell nfc r \<noteq> [] \<Longrightarrow> collect_surfaces nfc rs = map (first_cell nfc) rs"
  by (simp add: collect_surfaces_def)

subsection \<open>The union loop\<close>

lemma union_loop_eq:
  "union_loop nfc lower paths un = un \<union> (\<Union>src\<in>set paths. surface_set nfc lower src)"
  by (induction paths arbitrary: un) (auto simp: surface_set_def split: sum.splits)

lemma surface_set_Unreadable: "surface_set nfc lower Unreadable = {}"
  by (simp add: surface_set_def csv_surfaces_def)

lemma finite_surface_set: "finite (surface_set nfc lower src)"
  by (simp add: surface_set_def split: sum.splits prod.splits)

lemma distinct_surface_count_card:
  "distinct_surface_count nfc lower src = card (surface_set nfc lower src)"
  by (simp add: distinct_surface_count_def surface_set_def csv_summary_def
      split: sum.splits prod.splits)

lemma csv_summary_readable:
  assumes "p \<noteq> Unreadable"
  shows "\<exists>n_lines n_rows.
           csv_summary nfc lower p = Inr (n_lines, n_rows, distinct_surface_count nfc lower p)"
proof -
  from assms obtain rows where p: "p = Rows rows" by (cases p) auto
  obtain i where "csv_surfaces nfc lower (Rows rows)
      = Inr (length rows, collect_surfaces nfc (drop i rows))"
    using csv_surfaces_Rows by blast
  then show ?thesis
    by (simp add: p csv_summary_def distinct_surface_count_def)
qed

subsection \<open>Single rows of the classifier\<close>

lemma has_latin_nonempty: "has_latin s \<Longrightarrow> s \<noteq> []"
  by (auto simp: has_latin_def)

lemma has_japanese_nonempty: "has_japanese_chars s \<Longrightarrow> s \<noteq> []"
  by (auto simp: has_japanese_chars_def)

lemma first_cell_fixed:
  assumes "strip s = s" and "nfc s = s" and "collapse_ws s = s"
  shows "first_cell nfc (s # cs) = s"
  using assms by (simp add: first_cell_def norm_surface_def)

lemma header_by_word:
  assumes "idx < length rows" and "first_cell nfc (rows ! idx) \<noteq> []"
    and "lower (first_cell nfc (rows ! idx)) \<in> set header_words"
  shows "looks_like_header_row nfc lower rows idx = Inr True"
  using assms by (simp add: looks_like_header_row_def)

lemma header_by_next_row:
  assumes "idx < length rows"
    and "has_latin (first_cell nfc (rows ! idx))"
    and "\<not> has_japanese_chars (first_cell nfc (rows ! idx))"
    and "has_japanese_chars (next_nonempty_first nfc rows (idx + 1))"
  shows "looks_like_header_row nfc lower rows idx = Inr True"
  using assms has_latin_nonempty[OF assms(2)] has_japanese_nonempty[OF assms(4)]
  by (simp add: looks_like_header_row_def Let_def)

lemma data_row_japanese:
  assumes "idx < length rows"
    and "has_japanese_chars (first_cell nfc (rows ! idx))"
    and "lower (first_cell nfc (rows ! idx)) \<notin> set header_words"
    and "\<not> (has_lower_latin (lower (first_cell nfc (rows ! idx)))
            \<and> list_ex (contains (lower (first_cell nfc (rows ! idx)))) header_substrings)"
  shows "looks_like_header_row nfc lower rows idx = Inr False"
  using assms has_japanese_nonempty[OF assms(2)]
  by (simp add: looks_like_header_row_def Let_def)

subsection \<open>The strings of the scenarios\<close>

lemma header_words_eval:
  "header_words =
     [[119, 111, 114, 100], [119, 111, 114, 100, 115], [115, 117, 114, 102, 97, 99, 101],
      [101, 120, 112, 114, 101, 115, 115, 105, 111, 110], [108, 101, 120, 101, 109, 101],
      [108, 101, 109, 109, 97], [108, 101, 109, 109, 97, 115],
      [100, 105, 99, 116, 102, 111, 114, 109], [100, 105, 99, 116, 95, 102, 111, 114, 109],
      [100, 105, 99, 116, 105, 111, 110, 97, 114, 121, 102, 111, 114, 109]]"
  by (simp add: header_words_def ustr_of_def)

lemma header_substrings_eval:
  "header_substrings =
     [[119, 111, 114, 100], [115, 117, 114, 102, 97, 99, 101],
      [101, 120, 112, 114, 101, 115, 115, 105, 111, 110], [108, 101, 120, 101, 109, 101],
      [108, 101, 109, 109, 97], [109, 111, 114, 112, 104],
      [100, 105, 99, 116, 102, 111, 114, 109], [100, 105, 99, 116, 95, 102, 111, 114, 109],
      [104, 97, 115, 99, 97, 114, 100], [114, 101, 97, 100, 105, 110, 103],
      [116, 114, 97, 110, 115, 108, 97, 116, 105, 111, 110]]"
  by (simp add: header_substrings_def ustr_of_def)

lemma s_word_eval: "s_word = [119, 111, 114, 100]"
  by (simp add: s_word_def ustr_of_def)

lemma s_vocab_eval: "s_vocab = [86, 111, 99, 97, 98]"
  by (simp add: s_vocab_def ustr_of_def)

lemma s_tango_word_eval: "s_tango_word = [0x5358, 0x8A9E, 119, 111, 114, 100]"
  by (simp add: s_tango_word_def ustr_of_def)

lemma strip_collapse_word: "strip s_word = s_word" "collapse_ws s_word = s_word"
  by (simp_all add: s_word_eval strip_def is_space_def)

lemma strip_collapse_vocab: "strip s_vocab = s_vocab" "collapse_ws s_vocab = s_vocab"
  by (simp_all add: s_vocab_eval strip_def is_space_def)

lemma strip_collapse_gakkou: "strip s_gakkou = s_gakkou" "collapse_ws s_gakkou = s_gakkou"
  by (simp_all add: s_gakkou_def strip_def is_space_def)

lemma strip_collapse_taberu: "strip s_taberu = s_taberu" "collapse_ws s_taberu = s_taberu"
  by (simp_all add: s_taberu_def strip_def is_space_def)

lemma strip_collapse_hashiru: "strip s_hashiru = s_hashiru" "collapse_ws s_hashiru = s_hashiru"
  by (simp_all add: s_hashiru_def strip_def is_space_def)

lemma strip_collapse_tango_word:
  "strip s_tango_word = s_tango_word" "collapse_ws s_tango_word = s_tango_word"
  by (simp_all add: s_tango_word_eval strip_def is_space_def)

lemma jp_gakkou: "has_japanese_chars s_gakkou"
  by (simp add: has_japanese_chars_def s_gakkou_def)

lemma jp_taberu: "has_japanese_chars s_taberu"
  by (simp add: has_japanese_chars_def s_taberu_def)

lemma jp_hashiru: "has_japanese_chars s_hashiru"
  by (simp add: has_japanese_chars_def s_hashiru_def)

lemma jp_tango_word: "has_japanese_chars s_tango_word"
  by (simp add: has_japanese_chars_def s_tango_word_eval)

lemma latin_vocab: "has_latin s_vocab \<and> \<not> has_japanese_chars s_vocab"
  by (simp add: has_latin_def has_japanese_chars_def s_vocab_eval)

lemma no_latin_gakkou: "\<not> has_lower_latin s_gakkou"
  by (simp add: has_lower_latin_def s_gakkou_def)

lemma no_latin_taberu: "\<not> has_lower_latin s_taberu"
  by (simp add: has_lower_latin_def s_taberu_def)

lemma gakkou_not_header_word: "s_gakkou \<notin> set header_words"
  by (simp add: header_words_eval s_gakkou_def)

lemma taberu_not_header_word: "s_taberu \<notin> set header_words"
  by (simp add: header_words_eval s_taberu_def)

lemma word_header_word: "s_word \<in> set header_words"
  by (simp add: header_words_eval s_word_eval)

lemma surfaces_distinct:
  "s_gakkou \<noteq> s_taberu" "s_taberu \<noteq> s_hashiru" "s_gakkou \<noteq> s_hashiru"
  by (simp_all add: s_gakkou_def s_taberu_def s_hashiru_def)

lemma nfc_fragment_fixes:
  "nfc_fragment s_word = s_word" "nfc_fragment s_vocab = s_vocab"
  "nfc_fragment s_gakkou = s_gakkou" "nfc_fragment s_taberu = s_taberu"
  "nfc_fragment s_hashiru = s_hashiru" "nfc_fragment s_tango_word = s_tango_word"
  by (simp_all add: nfc_fragment_def nfc_singleton_def s_word_eval s_vocab_eval s_gakkou_def
      s_taberu_def s_hashiru_def s_tango_word_eval)

lemma lower_ascii_fixes:
  "lower_ascii s_word = s_word" "lower_ascii s_gakkou = s_gakkou"
  "lower_ascii s_taberu = s_taberu" "lower_ascii s_tango_word = s_tango_word"
  by (simp_all add: lower_ascii_def s_word_eval s_gakkou_def s_taberu_def s_tango_word_eval)

lemma fc_vocab: "first_cell nfc_fragment [s_vocab] = s_vocab"
  by (rule first_cell_fixed) (simp_all add: strip_collapse_vocab nfc_fragment_fixes)

lemma fc_gakkou: "first_cell nfc_fragment [s_gakkou] = s_gakkou"
  by (rule first_cell_fixed) (simp_all add: strip_collapse_gakkou nfc_fragment_fixes)

lemma fc_taberu: "first_cell nfc_fragment [s_taberu] = s_taberu"
  by (rule first_cell_fixed) (simp_all add: strip_collapse_taberu nfc_fragment_fixes)

lemma fc_tango_word: "first_cell nfc_fragment [s_tango_word] = s_tango_word"
  by (rule first_cell_fixed) (simp_all add: strip_collapse_tango_word nfc_fragment_fixes)

text \<open>
  The two spreadsheets of scenario A, for every \<open>nfc\<close> and \<open>lower\<close> that leave the four
  strings unchanged (as Python's do: none of their characters decomposes, combines or
  has an upper case).
\<close>

lemma surfaces_of_scenario_A:
  assumes nfc: "nfc s_word = s_word" "nfc s_gakkou = s_gakkou" "nfc s_taberu = s_taberu"
      "nfc s_hashiru = s_hashiru"
    and lower: "lower s_word = s_word" "lower s_gakkou = s_gakkou" "lower s_taberu = s_taberu"
  shows "csv_surfaces nfc lower a_csv = Inr (3, [s_gakkou, s_taberu])"
    and "csv_surfaces nfc lower b_csv = Inr (2, [s_taberu, s_hashiru])"
proof -
  let ?a = "[[s_word], [s_gakkou], [s_taberu]]"
  let ?b = "[[s_taberu], [s_hashiru]]"
  have fw: "first_cell nfc [s_word] = s_word"
    by (rule first_cell_fixed) (simp_all add: strip_collapse_word nfc)
  have fg: "first_cell nfc [s_gakkou] = s_gakkou"
    by (rule first_cell_fixed) (simp_all add: strip_collapse_gakkou nfc)
  have ft: "first_cell nfc [s_taberu] = s_taberu"
    by (rule first_cell_fixed) (simp_all add: strip_collapse_taberu nfc)
  have fh: "first_cell nfc [s_hashiru] = s_hashiru"
    by (rule first_cell_fixed) (simp_all add: strip_collapse_hashiru nfc)
  have wne: "s_word \<noteq> []" by (simp add: s_word_eval)
  have a0: "looks_like_header_row nfc lower ?a 0 = Inr True"
    by (rule header_by_word) (simp_all add: fw lower word_header_word wne)
  have a1: "looks_like_header_row nfc lower ?a 1 = Inr False"
    by (rule data_row_japanese)
      (simp_all add: fg lower jp_gakkou gakkou_not_header_word no_latin_gakkou)
  have "header_scan nfc lower ?a 0 = header_scan nfc lower ?a 1"
    using header_scan_step[of 0 ?a nfc lower] a0 by simp
  also have "\<dots> = Inr 1"
    using header_scan_stop[of 1 ?a nfc lower] a1 by simp
  finally have sa: "header_scan nfc lower ?a 0 = Inr 1" .
  have b0: "looks_like_header_row nfc lower ?b 0 = Inr False"
    by (rule data_row_japanese)
      (simp_all add: ft lower jp_taberu taberu_not_header_word no_latin_taberu)
  have sb: "header_scan nfc lower ?b 0 = Inr 0"
    using header_scan_stop[of 0 ?b nfc lower] b0 by simp
  have ne: "s_gakkou \<noteq> []" "s_taberu \<noteq> []" "s_hashiru \<noteq> []"
    by (simp_all add: s_gakkou_def s_taberu_def s_hashiru_def)
  show "csv_surfaces nfc lower a_csv = Inr (3, [s_gakkou, s_taberu])"
    using sa ne by (simp add: a_csv_def csv_surfaces_def collect_surfaces_def fg ft)
  show "csv_surfaces nfc lower b_csv = Inr (2, [s_taberu, s_hashiru])"
    using sb ne by (simp add: b_csv_def csv_surfaces_def collect_surfaces_def ft fh)
qed

lemma fragment_surfaces:
  "csv_surfaces nfc_fragment lower_ascii a_csv = Inr (3, [s_gakkou, s_taberu])"
  "csv_surfaces nfc_fragment lower_ascii b_csv = Inr (2, [s_taberu, s_hashiru])"
  by (rule surfaces_of_scenario_A; simp add: nfc_fragment_fixes lower_ascii_fixes)+

lemma fragment_surface_sets:
  "surface_set nfc_fragment lower_ascii a_csv = {s_gakkou, s_taberu}"
  "surface_set nfc_fragment lower_ascii b_csv = {s_taberu, s_hashiru}"
  by (simp_all add: surface_set_def fragment_surfaces)

lemma fragment_distinct_counts:
  "distinct_surface_count nfc_fragment lower_ascii a_csv = 2"
  "distinct_surface_count nfc_fragment lower_ascii b_csv = 2"
  using surfaces_distinct
  by (simp_all add: distinct_surface_count_card fragment_surface_sets)

lemma fragment_union:
  "csv_union_unique_surfaces nfc_fragment lower_ascii [a_csv, b_csv] = 3"
proof -
  have "union_loop nfc_fragment lower_ascii [a_csv, b_csv] {} = {s_gakkou, s_taberu, s_hashiru}"
    by (auto simp: fragment_surfaces)
  then show ?thesis
    using surfaces_distinct by (simp add: csv_union_unique_surfaces_def)
qed

lemma sources_readable: "a_csv \<noteq> Unreadable" "b_csv \<noteq> Unreadable"
  by (simp_all add: a_csv_def b_csv_def)

section \<open>Claims about the spreadsheet extractor\<close>

text \<open>
  C2.  Scenario A: for \<open>a.csv\<close> with the rows \<open>word\<close>, U+5B66 U+6821, U+98DF U+3079
  U+308B and \<open>b.csv\<close> with the rows U+98DF U+3079 U+308B, U+8D70 U+308B, the summary
  reports 2 distinct surfaces for each file (the row \<open>word\<close> is skipped as a header), and
  the union over both files has 3 distinct surfaces.
\<close>

theorem scenario_A:
  assumes nfc: "nfc s_word = s_word" "nfc s_gakkou = s_gakkou" "nfc s_taberu = s_taberu"
      "nfc s_hashiru = s_hashiru"
    and lower: "lower s_word = s_word" "lower s_gakkou = s_gakkou" "lower s_taberu = s_taberu"
  shows "csv_surfaces nfc lower a_csv = Inr (3, [s_gakkou, s_taberu]) \<and>
         csv_summary nfc lower a_csv = Inr (3, 2, 2) \<and>
         csv_summary nfc lower b_csv = Inr (2, 2, 2) \<and>
         csv_union_unique_surfaces nfc lower [a_csv, b_csv] = 3"
proof -
  note s = surfaces_of_scenario_A[of nfc lower, OF nfc lower]
  have sma: "csv_summary nfc lower a_csv = Inr (3, 2, 2)"
    using surfaces_distinct by (simp add: csv_summary_def s)
  have smb: "csv_summary nfc lower b_csv = Inr (2, 2, 2)"
    using surfaces_distinct by (simp add: csv_summary_def s)
  have "union_loop nfc lower [a_csv, b_csv] {} = {s_gakkou, s_taberu, s_hashiru}"
    by (auto simp: s)
  then have "csv_union_unique_surfaces nfc lower [a_csv, b_csv] = 3"
    using surfaces_distinct by (simp add: csv_union_unique_surfaces_def)
  with s sma smb show ?thesis by simp
qed

theorem scenario_A_witness:
  "nfc_fragment s_word = s_word \<and> nfc_fragment s_gakkou = s_gakkou \<and>
   nfc_fragment s_taberu = s_taberu \<and> nfc_fragment s_hashiru = s_hashiru \<and>
   lower_ascii s_word = s_word \<and> lower_ascii s_gakkou = s_gakkou \<and>
   lower_ascii s_taberu = s_taberu \<and>
   csv_summary nfc_fragment lower_ascii a_csv = Inr (3, 2, 2) \<and>
   csv_summary nfc_fragment lower_ascii b_csv = Inr (2, 2, 2) \<and>
   csv_union_unique_surfaces nfc_fragment lower_ascii [a_csv, b_csv] = 3"
  using scenario_A[of nfc_fragment lower_ascii] nfc_fragment_fixes lower_ascii_fixes
  by simp

text \<open>
  C4.  For a non-empty list of readable spreadsheets, the union count is at least the
  largest distinct count that the summary reports for one of them, and equal to it when
  all of them have the same set of surfaces.
\<close>

theorem union_ge_max:
  assumes "paths \<noteq> []" and "\<forall>p\<in>set paths. p \<noteq> Unreadable"
  shows "(\<forall>p\<in>set paths. \<exists>n_lines n_rows.
            csv_summary nfc lower p = Inr (n_lines, n_rows, distinct_surface_count nfc lower p)) \<and>
         Max (distinct_surface_count nfc lower ` set paths)
           \<le> csv_union_unique_surfaces nfc lower paths \<and>
         ((\<forall>p\<in>set paths. \<forall>q\<in>set paths. surface_set nfc lower p = surface_set nfc lower q)
            \<longrightarrow> csv_union_unique_surfaces nfc lower paths
                  = Max (distinct_surface_count nfc lower ` set paths))"
proof -
  define U where "U = (\<Union>src\<in>set paths. surface_set nfc lower src)"
  define D where "D = distinct_surface_count nfc lower ` set paths"
  have 0: "\<forall>p\<in>set paths. \<exists>n_lines n_rows.
      csv_summary nfc lower p = Inr (n_lines, n_rows, distinct_surface_count nfc lower p)"
    using assms(2) csv_summary_readable by blast
  have fin: "finite U" by (simp add: U_def finite_surface_set)
  have u: "csv_union_unique_surfaces nfc lower paths = card U"
    by (simp add: U_def csv_union_unique_surfaces_def union_loop_eq)
  have le: "distinct_surface_count nfc lower p \<le> card U" if "p \<in> set paths" for p
  proof -
    have "surface_set nfc lower p \<subseteq> U" using that by (auto simp: U_def)
    then have "card (surface_set nfc lower p) \<le> card U" using fin by (rule card_mono[rotated])
    then show ?thesis by (simp only: distinct_surface_count_card)
  qed
  have finD: "finite D" and neD: "D \<noteq> {}" using assms(1) by (simp_all add: D_def)
  have 1: "Max D \<le> card U"
    using le finD neD by (auto simp: D_def)
  have 2: "card U = Max D"
    if same: "\<forall>p\<in>set paths. \<forall>q\<in>set paths. surface_set nfc lower p = surface_set nfc lower q"
  proof -
    obtain p0 where p0: "p0 \<in> set paths" using assms(1) by (cases paths) auto
    have "U = surface_set nfc lower p0"
      unfolding U_def
    proof
      show "(\<Union>src\<in>set paths. surface_set nfc lower src) \<subseteq> surface_set nfc lower p0"
        using same p0 by blast
      show "surface_set nfc lower p0 \<subseteq> (\<Union>src\<in>set paths. surface_set nfc lower src)"
        using p0 by blast
    qed
    then have "card U = card (surface_set nfc lower p0)" by (simp only:)
    then have c: "card U = distinct_surface_count nfc lower p0"
      by (simp only: distinct_surface_count_card)
    have "distinct_surface_count nfc lower p0 \<in> D" using p0 by (simp add: D_def)
    then have "distinct_surface_count nfc lower p0 \<le> Max D"
      using finD by (rule Max_ge[rotated])
    with c 1 show ?thesis by linarith
  qed
  from 0 1 2 u show ?thesis unfolding D_def by (simp only:) blast
qed

theorem union_ge_max_witness:
  "[a_csv, b_csv] \<noteq> [] \<and> a_csv \<noteq> Unreadable \<and> b_csv \<noteq> Unreadable \<and>
   Max (distinct_surface_count nfc_fragment lower_ascii ` set [a_csv, b_csv]) = 2 \<and>
   csv_union_unique_surfaces nfc_fragment lower_ascii [a_csv, b_csv] = 3 \<and>
   Max (distinct_surface_count nfc_fragment lower_ascii ` set [a_csv, b_csv])
     \<le> csv_union_unique_surfaces nfc_fragment lower_ascii [a_csv, b_csv] \<and>
   csv_union_unique_surfaces nfc_fragment lower_ascii [a_csv, a_csv]
     = Max (distinct_surface_count nfc_fragment lower_ascii ` set [a_csv, a_csv])"
  using union_ge_max[of "[a_csv, b_csv]" nfc_fragment lower_ascii]
    union_ge_max[of "[a_csv, a_csv]" nfc_fragment lower_ascii]
    sources_readable fragment_distinct_counts fragment_union
  by simp

text \<open>
  C6 (as amended).  When a first row whose normalised first cell contains a Latin
  letter and no kana or ideograph is followed by at least one row, every following row
  has a kana or an ideograph in its normalised first cell, and the first cell of the
  first of them, in lower case, neither is one of the header words nor contains both a
  letter a-z and one of the header substrings, then the classifier takes the first row
  as a header and the second as data, the header loop consumes exactly one row, and the
  first cells of all following rows are the surfaces, in row order.
\<close>

theorem single_latin_header:
  assumes hdr: "has_latin (first_cell nfc hdr)" "\<not> has_japanese_chars (first_cell nfc hdr)"
    and jp: "\<forall>r\<in>set (d # ds). has_japanese_chars (first_cell nfc r)"
    and r2: "lower (first_cell nfc d) \<notin> set header_words"
    and r3: "\<not> (has_lower_latin (lower (first_cell nfc d))
               \<and> list_ex (contains (lower (first_cell nfc d))) header_substrings)"
  shows "looks_like_header_row nfc lower (hdr # d # ds) 0 = Inr True \<and>
         looks_like_header_row nfc lower (hdr # d # ds) 1 = Inr False \<and>
         header_scan nfc lower (hdr # d # ds) 0 = Inr 1 \<and>
         csv_surfaces nfc lower (Rows (hdr # d # ds))
           = Inr (length (hdr # d # ds), map (first_cell nfc) (d # ds))"
proof -
  let ?rows = "hdr # d # ds"
  from jp have jd: "has_japanese_chars (first_cell nfc d)" by simp
  then have "first_cell nfc d \<noteq> []" by (rule has_japanese_nonempty)
  then have nx: "next_nonempty_first nfc ?rows (Suc 0) = first_cell nfc d"
    by (simp add: next_nonempty_first_def)
  have h0: "looks_like_header_row nfc lower ?rows 0 = Inr True"
    by (rule header_by_next_row) (simp_all add: hdr nx jd)
  have h1: "looks_like_header_row nfc lower ?rows 1 = Inr False"
    by (rule data_row_japanese) (simp_all add: jd r2 r3)
  have "header_scan nfc lower ?rows 0 = header_scan nfc lower ?rows 1"
    using header_scan_step[of 0 ?rows nfc lower] h0 by simp
  also have "\<dots> = Inr 1"
    using header_scan_stop[of 1 ?rows nfc lower] h1 by simp
  finally have hs: "header_scan nfc lower ?rows 0 = Inr 1" .
  have "\<forall>r\<in>set (d # ds). first_cell nfc r \<noteq> []"
    using jp has_japanese_nonempty by blast
  then have "collect_surfaces nfc (d # ds) = map (first_cell nfc) (d # ds)"
    by (rule collect_surfaces_all)
  with hs h0 h1 show ?thesis by (simp add: csv_surfaces_def)
qed

theorem single_latin_header_witness:
  "has_latin (first_cell nfc_fragment [s_vocab]) \<and>
   \<not> has_japanese_chars (first_cell nfc_fragment [s_vocab]) \<and>
   has_japanese_chars (first_cell nfc_fragment [s_gakkou]) \<and>
   has_japanese_chars (first_cell nfc_fragment [s_taberu]) \<and>
   lower_ascii (first_cell nfc_fragment [s_gakkou]) \<notin> set header_words \<and>
   \<not> has_lower_latin (lower_ascii (first_cell nfc_fragment [s_gakkou])) \<and>
   header_scan nfc_fragment lower_ascii [[s_vocab], [s_gakkou], [s_taberu]] 0 = Inr 1 \<and>
   csv_surfaces nfc_fragment lower_ascii (Rows [[s_vocab], [s_gakkou], [s_taberu]])
     = Inr (3, [s_gakkou, s_taberu])"
  using single_latin_header[of nfc_fragment "[s_vocab]" "[s_gakkou]" "[[s_taberu]]" lower_ascii]
  by (simp add: fc_vocab fc_gakkou fc_taberu lower_ascii_fixes jp_gakkou jp_taberu latin_vocab
      no_latin_gakkou gakkou_not_header_word)

text \<open>
  C6 as stated fails.  The rows \<open>Vocab\<close>, U+5358 U+8A9E \<open>word\<close>, U+5B66 U+6821 are a
  Latin label row followed by two rows whose first cells contain ideographs; the second
  row is classified as a header too (its lower-case first cell contains a letter and
  the substring \<open>word\<close>), the header loop consumes two rows, and the second row's first
  cell is not among the surfaces.
\<close>

theorem single_latin_header_counterexample:
  "has_latin (first_cell nfc_fragment [s_vocab]) \<and>
   \<not> has_japanese_chars (first_cell nfc_fragment [s_vocab]) \<and>
   has_japanese_chars (first_cell nfc_fragment [s_tango_word]) \<and>
   has_japanese_chars (first_cell nfc_fragment [s_gakkou]) \<and>
   looks_like_header_row nfc_fragment lower_ascii [[s_vocab], [s_tango_word], [s_gakkou]] 1
     = Inr True \<and>
   header_scan nfc_fragment lower_ascii [[s_vocab], [s_tango_word], [s_gakkou]] 0 = Inr 2 \<and>
   csv_surfaces nfc_fragment lower_ascii (Rows [[s_vocab], [s_tango_word], [s_gakkou]])
     = Inr (3, [s_gakkou])"
proof -
  let ?rows = "[[s_vocab], [s_tango_word], [s_gakkou]]"
  have nx: "next_nonempty_first nfc_fragment ?rows (Suc 0) = s_tango_word"
    using has_japanese_nonempty[OF jp_tango_word]
    by (simp add: next_nonempty_first_def fc_tango_word)
  have h0: "looks_like_header_row nfc_fragment lower_ascii ?rows 0 = Inr True"
    by (rule header_by_next_row) (simp_all add: fc_vocab latin_vocab nx jp_tango_word)
  have "contains s_tango_word [119, 111, 114, 100]" by (simp add: s_tango_word_eval)
  then have sub: "list_ex (contains s_tango_word) header_substrings"
    by (simp add: header_substrings_eval)
  have low: "has_lower_latin s_tango_word"
    by (simp add: has_lower_latin_def s_tango_word_eval)
  have h1: "looks_like_header_row nfc_fragment lower_ascii ?rows 1 = Inr True"
    using has_japanese_nonempty[OF jp_tango_word] sub low
    by (simp add: looks_like_header_row_def fc_tango_word lower_ascii_fixes)
  have h2: "looks_like_header_row nfc_fragment lower_ascii ?rows 2 = Inr False"
    by (rule data_row_japanese)
      (simp_all add: fc_gakkou jp_gakkou lower_ascii_fixes no_latin_gakkou
        gakkou_not_header_word)
  have "header_scan nfc_fragment lower_ascii ?rows 0
      = header_scan nfc_fragment lower_ascii ?rows 1"
    using header_scan_step[of 0 ?rows nfc_fragment lower_ascii] h0 by simp
  also have "\<dots> = header_scan nfc_fragment lower_ascii ?rows 2"
    using header_scan_step[of 1 ?rows nfc_fragment lower_ascii] h1
    by (simp add: numeral_2_eq_2)
  also have "\<dots> = Inr 2"
    using header_scan_stop[of 2 ?rows nfc_fragment lower_ascii] h2 by simp
  finally have hs: "header_scan nfc_fragment lower_ascii ?rows 0 = Inr 2" .
  have cs: "collect_surfaces nfc_fragment [[s_gakkou]] = [s_gakkou]"
    using has_japanese_nonempty[OF jp_gakkou] by (simp add: collect_surfaces_def fc_gakkou)
  show ?thesis
    using h1 hs cs
    by (simp add: csv_surfaces_def fc_vocab fc_tango_word fc_gakkou latin_vocab
        jp_tango_word jp_gakkou)
qed

text \<open>
  C8.  The union count is the number of elements of the union of the surface sets of
  exactly the readable sources: an unreadable source is skipped, adds nothing, and the
  sources after it are still processed (the count equals the count over the list with
  the unreadable sources removed).
\<close>

theorem union_skips_unreadable:
  "csv_union_unique_surfaces nfc lower paths
     = card (\<Union>src\<in>{p \<in> set paths. p \<noteq> Unreadable}. surface_set nfc lower src) \<and>
   csv_union_unique_surfaces nfc lower paths
     = csv_union_unique_surfaces nfc lower (filter (\<lambda>p. p \<noteq> Unreadable) paths)"
proof -
  have "(\<Union>src\<in>set paths. surface_set nfc lower src)
      = (\<Union>src\<in>{p \<in> set paths. p \<noteq> Unreadable}. surface_set nfc lower src)"
    using surface_set_Unreadable by fastforce
  then show ?thesis
    by (simp add: csv_union_unique_surfaces_def union_loop_eq)
qed

theorem union_skips_unreadable_witness:
  "csv_union_unique_surfaces nfc_fragment lower_ascii [Unreadable, a_csv, Unreadable, b_csv]
     = csv_union_unique_surfaces nfc_fragment lower_ascii [a_csv, b_csv] \<and>
   csv_union_unique_surfaces nfc_fragment lower_ascii [Unreadable, a_csv, Unreadable, b_csv] = 3"
  using union_skips_unreadable[of nfc_fragment lower_ascii
      "[Unreadable, a_csv, Unreadable, b_csv]"]
    sources_readable fragment_union
  by simp

text \<open>
  C10.  For a readable spreadsheet the summary returns three numbers: the number of raw
  rows, the number of surfaces, which is at most the number of rows, and the number of
  distinct surfaces, which is at most the number of surfaces.  An unreadable spreadsheet
  has no summary: the read error propagates.
\<close>

theorem csv_summary_ordered:
  "(\<exists>n_lines n_rows n_unique.
      csv_summary nfc lower (Rows rows) = Inr (n_lines, n_rows, n_unique) \<and>
      n_lines = length rows \<and> n_unique \<le> n_rows \<and> n_rows \<le> n_lines) \<and>
   csv_summary nfc lower Unreadable = Inl ReadError"
proof -
  obtain i where i: "csv_surfaces nfc lower (Rows rows)
      = Inr (length rows, collect_surfaces nfc (drop i rows))"
    using csv_surfaces_Rows by blast
  have "length (collect_surfaces nfc (drop i rows)) \<le> length rows"
    using length_collect_surfaces[of nfc "drop i rows"] by simp
  moreover have "card (set (collect_surfaces nfc (drop i rows)))
      \<le> length (collect_surfaces nfc (drop i rows))"
    by (rule card_length)
  ultimately show ?thesis
    using i by (simp add: csv_summary_def csv_surfaces_def)
qed

theorem csv_summary_ordered_witness:
  "\<exists>n_lines n_rows n_unique.
     csv_summary nfc_fragment lower_ascii (Rows [[s_word], [s_gakkou], [s_taberu], [s_gakkou]])
       = Inr (n_lines, n_rows, n_unique) \<and>
     n_lines = 4 \<and> n_unique \<le> n_rows \<and> n_rows \<le> n_lines"
  using csv_summary_ordered[of nfc_fragment lower_ascii
      "[[s_word], [s_gakkou], [s_taberu], [s_gakkou]]"]
  by (simp add: eval_nat_numeral)

section \<open>Properties of the stores\<close>

lemma float_ge_int_mono:
  "t1 \<le> t2 \<Longrightarrow> float_ge_int r t2 \<Longrightarrow> float_ge_int r t1"
proof (cases r)
  case (Finite m e)
  assume le: "t1 \<le> t2" and ge: "float_ge_int r t2"
  show ?thesis
  proof (cases "0 \<le> e")
    case True
    with Finite le ge show ?thesis by simp
  next
    case False
    have "t1 * 2 ^ nat (- e) \<le> t2 * 2 ^ nat (- e)"
      using le by (rule mult_right_mono) simp
    moreover have "t2 * 2 ^ nat (- e) \<le> m"
      using Finite False ge by simp
    ultimately have "t1 * 2 ^ nat (- e) \<le> m" by (rule order_trans)
    with Finite False show ?thesis by simp
  qed
qed simp_all

lemma interval_at_least_mono:
  "aff \<noteq> Text_Affinity \<Longrightarrow> t1 \<le> t2 \<Longrightarrow> interval_at_least aff t2 m
     \<Longrightarrow> interval_at_least aff t1 m"
  by (auto simp: interval_at_least_def split: sql_value.splits dest: float_ge_int_mono)

lemma length_filter_mono:
  "(\<And>x. P x \<Longrightarrow> Q x) \<Longrightarrow> length (filter P xs) \<le> length (filter Q xs)"
  by (induction xs) auto

lemma count_distinct_mono:
  assumes "set xs \<subseteq> set ys"
  shows "count_distinct (map f xs) \<le> count_distinct (map f ys)"
proof -
  have "set (non_null (map f xs)) \<subseteq> set (non_null (map f ys))"
    using assms by (auto simp: non_null_def)
  then show ?thesis
    unfolding count_distinct_def by (intro card_mono) simp_all
qed

lemma int_text_9: "int_text 9 = [0x39]"
  by (simp add: int_text_def nat_digits.simps[of 9])

lemma int_text_10: "int_text 10 = [0x31, 0x30]"
  by (simp add: int_text_def nat_digits.simps[of 10] nat_digits.simps[of "Suc 0"])

lemma joined_scenario_C:
  "i1 \<noteq> i2 \<Longrightarrow>
   joined (scenario_C_db i1 i2 j)
     = [(Some s_hashiru, Some s_hashiru), (Some s_hashitta, Some s_hashiru)]"
  by (simp add: joined_def scenario_C_db_def)

lemma hashitta_differs: "s_hashitta \<noteq> s_hashiru"
  by (simp add: s_hashitta_def s_hashiru_def)

section \<open>Claims about the stores\<close>

text \<open>
  C5 (as amended).  When the interval column has an affinity other than text, whatever
  values it stores, and \<open>t1 \<le> t2\<close> are thresholds that SQLite can bind (signed 64-bit
  integers), \<open>main\<close> reports the three filtered counts for both thresholds, and the
  filtered row count, the filtered distinct lemma count and the filtered distinct
  inflection count for \<open>t2\<close> are at most those for \<open>t1\<close>.
\<close>

theorem threshold_monotone:
  assumes "aff \<noteq> Text_Affinity" and "t1 \<le> t2" and "- (2 ^ 63) \<le> t1" and "t2 < 2 ^ 63"
  shows "anki_stats (Morphs (Some aff) morphs) t1
           = Inr \<lparr>anki_row_count = Some (filtered_row_count aff morphs t1),
                  anki_lemma_count = Some (filtered_lemma_count aff morphs t1),
                  anki_surface_count = Some (filtered_surface_count aff morphs t1)\<rparr> \<and>
         anki_stats (Morphs (Some aff) morphs) t2
           = Inr \<lparr>anki_row_count = Some (filtered_row_count aff morphs t2),
                  anki_lemma_count = Some (filtered_lemma_count aff morphs t2),
                  anki_surface_count = Some (filtered_surface_count aff morphs t2)\<rparr> \<and>
         filtered_row_count aff morphs t2 \<le> filtered_row_count aff morphs t1 \<and>
         filtered_lemma_count aff morphs t2 \<le> filtered_lemma_count aff morphs t1 \<and>
         filtered_surface_count aff morphs t2 \<le> filtered_surface_count aff morphs t1"
proof -
  note mono = interval_at_least_mono[OF assms(1,2)]
  have sub: "set (filter (interval_at_least aff t2) morphs)
      \<subseteq> set (filter (interval_at_least aff t1) morphs)"
    using mono by auto
  have "filtered_row_count aff morphs t2 \<le> filtered_row_count aff morphs t1"
    unfolding filtered_row_count_def
    by (rule length_filter_mono) (rule mono)
  moreover have "filtered_lemma_count aff morphs t2 \<le> filtered_lemma_count aff morphs t1"
    unfolding filtered_lemma_count_def by (rule count_distinct_mono[OF sub])
  moreover have "filtered_surface_count aff morphs t2 \<le> filtered_surface_count aff morphs t1"
    unfolding filtered_surface_count_def by (rule count_distinct_mono[OF sub])
  moreover have "\<not> (t1 < - (2 ^ 63) \<or> 2 ^ 63 \<le> t1)" "\<not> (t2 < - (2 ^ 63) \<or> 2 ^ 63 \<le> t2)"
    using assms(2-4) by auto
  ultimately show ?thesis by (simp add: anki_stats_def)
qed

theorem threshold_monotone_witness:
  "Integer_Affinity \<noteq> Text_Affinity \<and> (21::int) \<le> 26 \<and>
   - (2 ^ 63) \<le> (21::int) \<and> (26::int) < 2 ^ 63 \<and>
   filtered_row_count Integer_Affinity scenario_B_morphs 21 = 2 \<and>
   filtered_row_count Integer_Affinity scenario_B_morphs 26 = 1 \<and>
   filtered_lemma_count Integer_Affinity scenario_B_morphs 21 = 1 \<and>
   filtered_row_count Integer_Affinity scenario_B_morphs 26
     \<le> filtered_row_count Integer_Affinity scenario_B_morphs 21 \<and>
   filtered_lemma_count Integer_Affinity scenario_B_morphs 26
     \<le> filtered_lemma_count Integer_Affinity scenario_B_morphs 21 \<and>
   filtered_surface_count Integer_Affinity scenario_B_morphs 26
     \<le> filtered_surface_count Integer_Affinity scenario_B_morphs 21"
  using threshold_monotone[of Integer_Affinity 21 26 scenario_B_morphs]
  by (simp add: filtered_row_count_def filtered_lemma_count_def scenario_B_morphs_def
      interval_at_least_def count_distinct_def non_null_def)

text \<open>
  C5 as stated fails.  In a \<open>Morphs\<close> table whose interval column has text affinity and
  holds the texts \<open>30\<close>, \<open>10\<close> and \<open>25\<close>, the threshold is compared as a text: for the
  threshold 9 no row is selected and all three counts are 0, for the threshold 10 all
  three rows are selected and the counts are 3, 1 and 3.  And for the threshold
  \<open>2 ^ 63\<close> \<open>main\<close> reports no count at all: binding it raises \<open>OverflowError\<close>.
\<close>

theorem threshold_monotone_counterexample:
  "(9::int) \<le> 10 \<and>
   anki_stats (Morphs (Some Text_Affinity) text_morphs) 9
     = Inr \<lparr>anki_row_count = Some 0, anki_lemma_count = Some 0,
            anki_surface_count = Some 0\<rparr> \<and>
   anki_stats (Morphs (Some Text_Affinity) text_morphs) 10
     = Inr \<lparr>anki_row_count = Some 3, anki_lemma_count = Some 1,
            anki_surface_count = Some 3\<rparr> \<and>
   anki_stats (Morphs (Some Integer_Affinity) scenario_B_morphs) (2 ^ 63) = Inl OverflowError"
proof -
  have c9: "filtered_row_count Text_Affinity text_morphs 9 = 0"
    "filtered_lemma_count Text_Affinity text_morphs 9 = 0"
    "filtered_surface_count Text_Affinity text_morphs 9 = 0"
    by (simp_all add: filtered_row_count_def filtered_lemma_count_def
        filtered_surface_count_def text_morphs_def interval_at_least_def int_text_9
        count_distinct_def non_null_def)
  have c10: "filtered_row_count Text_Affinity text_morphs 10 = 3"
    "filtered_lemma_count Text_Affinity text_morphs 10 = 1"
    "filtered_surface_count Text_Affinity text_morphs 10 = 3"
    by (simp_all add: filtered_row_count_def filtered_lemma_count_def
        filtered_surface_count_def text_morphs_def interval_at_least_def int_text_10
        count_distinct_def non_null_def)
  show ?thesis
    by (simp add: anki_stats_def c9 c10)
qed

text \<open>
  C7.  Scenario C: in the internal store with the two lexemes U+8D70 U+308B and
  U+8D70 U+3063 U+305F, both joined to the one lemma U+8D70 U+308B, the changed count is
  1, the one changed join row pairs the surface U+8D70 U+3063 U+305F with the lemma
  U+8D70 U+308B, and the collision count is 1.  The row ids are arbitrary, the two
  lexeme ids different.
\<close>

theorem scenario_C:
  assumes "i1 \<noteq> i2"
  shows "tokei_changed_surface_count (scenario_C_db i1 i2 j) = 1 \<and>
         changed_rows (scenario_C_db i1 i2 j) = [(Some s_hashitta, Some s_hashiru)] \<and>
         tokei_collision_lemma_count (scenario_C_db i1 i2 j) = 1"
proof -
  note j = joined_scenario_C[OF assms, of j]
  have ch: "changed_rows (scenario_C_db i1 i2 j) = [(Some s_hashitta, Some s_hashiru)]"
    using hashitta_differs by (simp add: changed_rows_def j sql_differs_def)
  have "count_distinct [Some s_hashiru, Some s_hashitta] = 2"
    using hashitta_differs by (simp add: count_distinct_def non_null_def)
  then have "tokei_collision_lemma_count (scenario_C_db i1 i2 j) = 1"
    by (simp add: tokei_collision_lemma_count_def j)
  with ch show ?thesis by (simp add: tokei_changed_surface_count_def)
qed

theorem scenario_C_witness:
  "(1::int) \<noteq> 2 \<and>
   tokei_changed_surface_count (scenario_C_db 1 2 1) = 1 \<and>
   changed_rows (scenario_C_db 1 2 1) = [(Some s_hashitta, Some s_hashiru)] \<and>
   tokei_collision_lemma_count (scenario_C_db 1 2 1) = 1"
  using scenario_C[of 1 2 1] by simp

section \<open>Properties of the configuration loaders\<close>

lemma user_1_eval: "ustr_of ''User 1'' = [85, 115, 101, 114, 32, 49]"
  by (simp add: ustr_of_def)

lemma none_eval: "ustr_of ''None'' = [78, 111, 110, 101]"
  by (simp add: ustr_of_def)

lemma strip_none: "strip (ustr_of ''None'') = ustr_of ''None''"
  by (simp add: none_eval strip_def is_space_def)

text \<open>The defaults that the loaders do apply.\<close>

lemma load_anki_profile_defaults:
  "load_anki_profile fmt Read_Fails = ustr_of ''User 1''"
  "load_anki_profile fmt Json_Fails = ustr_of ''User 1''"
  "\<forall>d. parsed \<noteq> JObj d \<Longrightarrow> load_anki_profile fmt (Parsed parsed) = ustr_of ''User 1''"
  "strip (py_str fmt (dict_get d (ustr_of ''anki_profile''))) = [] \<Longrightarrow>
     load_anki_profile fmt (Parsed (JObj d)) = ustr_of ''User 1''"
  by (auto simp: load_anki_profile_def split: json.splits)

lemma load_anki_profile_nonempty: "load_anki_profile fmt cfg \<noteq> []"
  by (auto simp: load_anki_profile_def user_1_eval Let_def split: config_file.splits json.splits)

lemma known_interval_positive: "0 < load_ankimorphs_known_interval int_of_str cfg"
  by (auto simp: load_ankimorphs_known_interval_def Let_def
      split: config_file.splits json.splits sum.splits)

lemma known_interval_defaults:
  "load_ankimorphs_known_interval int_of_str Read_Fails = 21"
  "load_ankimorphs_known_interval int_of_str Json_Fails = 21"
  "\<forall>d. parsed \<noteq> JObj d \<Longrightarrow> load_ankimorphs_known_interval int_of_str (Parsed parsed) = 21"
  "\<forall>a. dict_get d (ustr_of ''ankimorphs'') \<noteq> JObj a \<Longrightarrow>
     load_ankimorphs_known_interval int_of_str (Parsed (JObj d)) = 21"
  by (auto simp: load_ankimorphs_known_interval_def split: json.splits)

lemma known_interval_value:
  assumes "dict_get d (ustr_of ''ankimorphs'') = JObj a"
  shows "load_ankimorphs_known_interval int_of_str (Parsed (JObj d))
           = (case py_int int_of_str (dict_get a (ustr_of ''known_interval_days'')) of
                Inl e \<Rightarrow> 21
              | Inr n \<Rightarrow> if 0 < n then n else 21)"
  using assms by (simp add: load_ankimorphs_known_interval_def Let_def split: sum.splits)

section \<open>Claims about the configuration loaders\<close>

text \<open>
  C1.  The claim: on every missing or malformed configuration, and on one that lacks
  the expected key, the loaders return their defaults, \<open>User 1\<close> and 21.  The profile
  loader does not: for a settings dict without the key \<open>anki_profile\<close>, and for one
  whose \<open>anki_profile\<close> is \<open>null\<close>, \<open>dict.get\<close> gives \<open>None\<close>, \<open>str(None)\<close> is the
  non-empty string \<open>None\<close>, and that string is returned as the profile name.  The
  interval loader, on the same dict, returns its default.
\<close>

theorem load_anki_profile_missing_key:
  "load_anki_profile fmt (Parsed (JObj [])) = ustr_of ''None'' \<and>
   load_anki_profile fmt (Parsed (JObj [(ustr_of ''anki_profile'', JNull)])) = ustr_of ''None'' \<and>
   ustr_of ''None'' \<noteq> ustr_of ''User 1'' \<and>
   load_ankimorphs_known_interval int_of_str (Parsed (JObj [])) = 21"
  by (simp add: load_anki_profile_def load_ankimorphs_known_interval_def dict_get_def
      strip_none)
    (simp add: none_eval user_1_eval)

end
